theory Spec2Isabelle
  imports Complex_Main "HOL-Library.Word"
begin

unbundle bit_operations_syntax

section \<open>The RGB keypad driver (lib/rgbkeypad.py)\<close>

subsection \<open>Data model\<close>

text \<open>
  Exceptions the driver's own statements can raise: a dictionary lookup of a missing
  mode (KeyError), calling or subscripting \<open>None\<close> (TypeError), an index outside a list
  or outside the pixel strip (IndexError).
\<close>

datatype error = KeyError | TypeError | IndexError

definition bind_err :: "error + 'a \<Rightarrow> ('a \<Rightarrow> error + 'b) \<Rightarrow> error + 'b" where
  "bind_err m f = (case m of Inl e \<Rightarrow> Inl e | Inr x \<Rightarrow> f x)"

text \<open>
  A colour is the triple written to a pixel. The DotStar strip is a collaborator outside
  the source: it is the list of the last triple written to each of its positions, shared
  by the keypad and its keys.
\<close>

type_synonym colour = "int \<times> int \<times> int"

text \<open>
  Handlers are application callbacks. The driver only calls them, so a handler is an
  opaque value of type \<open>'h\<close> and every call is appended to the key's trace \<open>calls\<close>
  (the one field that is not an attribute of the Python object).
\<close>

datatype 'h event = PressCall 'h | ReleaseCall 'h | HoldCall 'h

text \<open>
  A handler table is a Python dict from mode label to an optional callable:
  \<open>None\<close> is a missing label, \<open>Some None\<close> the entry \<open>None\<close> (as \<open>{'default': None}\<close>).
\<close>

type_synonym 'h table = "string \<Rightarrow> 'h option option"

record 'h Key =
  number :: nat
  current_state :: bool
  board_state :: string
  key_state :: bool
  pressed :: bool
  last_state :: "bool option"
  time_of_last_press :: real
  time_since_last_press :: "real option"
  time_held_for :: real
  held :: bool
  hold_time :: real
  rgb :: colour
  lit :: bool
  press_functions :: "'h table"
  release_functions :: "'h table"
  hold_functions :: "'h table"
  press_func_fired :: bool
  hold_func_fired :: bool
  debounce :: real
  key_locked :: bool
  calls :: "'h event list"

record 'h RGBKeyPad =
  pixels :: "colour list"
  states :: "nat list"
  kp_time_of_last_press :: real
  kp_time_since_last_press :: "real option"
  last_led_states :: "colour list option"
  led_sleep_enabled :: bool
  led_sleep_time :: real
  sleeping :: bool
  was_asleep :: bool
  keys :: "'h Key list"

definition NUM_KEYS :: nat where
  "NUM_KEYS = 16"

definition ENABLE_SLEEP :: bool where
  "ENABLE_SLEEP = True"

subsection \<open>The LED of a key (lines 349-393)\<close>

text \<open>
  \<open>Key.set_led\<close>: the flag and the remembered colour change first, then the triple is
  written to the strip at the key's number.
\<close>

definition Key_set_led ::
  "int \<Rightarrow> int \<Rightarrow> int \<Rightarrow> colour list \<times> 'h Key \<Rightarrow> error + colour list \<times> 'h Key" where
  "Key_set_led r g b s =
     (case s of (px, k) \<Rightarrow>
        (let k' = (if (r, g, b) = (0, 0, 0) then k\<lparr>lit := False\<rparr>
                   else k\<lparr>lit := True, rgb := (r, g, b)\<rparr>)
         in if number k' < length px then Inr (px[number k' := (r, g, b)], k')
            else Inl IndexError))"

definition Key_led_on :: "colour list \<times> 'h Key \<Rightarrow> error + colour list \<times> 'h Key" where
  "Key_led_on s = (case rgb (snd s) of (r, g, b) \<Rightarrow> Key_set_led r g b s)"

definition Key_led_off :: "colour list \<times> 'h Key \<Rightarrow> error + colour list \<times> 'h Key" where
  "Key_led_off s = Key_set_led 0 0 0 s"

definition Key_led_state :: "int \<Rightarrow> colour list \<times> 'h Key \<Rightarrow> error + colour list \<times> 'h Key" where
  "Key_led_state state s =
     (if state = 0 then Key_led_off s
      else if state = 1 then Key_led_on s
      else Inr s)"

definition Key_toggle_led ::
  "colour option \<Rightarrow> colour list \<times> 'h Key \<Rightarrow> error + colour list \<times> 'h Key" where
  "Key_toggle_led arg s =
     (case s of (px, k) \<Rightarrow>
        (let k' = (case arg of None \<Rightarrow> k | Some c \<Rightarrow> k\<lparr>rgb := c\<rparr>)
         in if lit k' then Key_led_off (px, k') else Key_led_on (px, k')))"

subsection \<open>Construction of a key (lines 244-269)\<close>

text \<open>
  \<open>t\<close> is the reading of \<open>time.monotonic()\<close> taken by the constructor. \<open>led_off\<close> is
  called on the half-built key, before the handler tables are assigned.
\<close>

definition Key_init ::
  "nat \<Rightarrow> colour list \<Rightarrow> bool \<Rightarrow> real \<Rightarrow> error + colour list \<times> 'h Key" where
  "Key_init n px st t =
     bind_err
       (Key_led_off (px,
          \<lparr>number = n, current_state = st, board_state = ''default'', key_state = False,
           pressed = False, last_state = None, time_of_last_press = t,
           time_since_last_press = None, time_held_for = 0, held = False,
           hold_time = 0.75, rgb = (0, 0, 0), lit = False,
           press_functions = (\<lambda>_. None), release_functions = (\<lambda>_. None),
           hold_functions = (\<lambda>_. None), press_func_fired = False,
           hold_func_fired = False, debounce = 0.125, key_locked = False,
           calls = []\<rparr>))
       (\<lambda>(px', k). Inr (px',
          k\<lparr>press_functions := [''default'' \<mapsto> None],
            release_functions := [''default'' \<mapsto> None],
            hold_functions := [''default'' \<mapsto> None],
            press_func_fired := False, hold_func_fired := False,
            debounce := 0.125, key_locked := False\<rparr>))"

subsection \<open>The state machine of a key: Key.update (lines 272-328)\<close>

text \<open>
  \<open>tbl[board_state](self)\<close>: the lookup raises KeyError on a missing label, the call
  raises TypeError on the entry \<open>None\<close>, and otherwise the handler is called.
\<close>

definition call_handler :: "'h table \<Rightarrow> ('h \<Rightarrow> 'h event) \<Rightarrow> 'h Key \<Rightarrow> error + 'h Key" where
  "call_handler tbl ev k =
     (case tbl (board_state k) of
        None \<Rightarrow> Inl KeyError
      | Some None \<Rightarrow> Inl TypeError
      | Some (Some h) \<Rightarrow> Inr (k\<lparr>calls := calls k @ [ev h]\<rparr>))"

text \<open>
  Lines 289-291. The test \<open>self.press_functions is not None\<close> is on the table, which is
  always a dict, so it is always true.
\<close>

definition fire_press :: "'h Key \<Rightarrow> error + 'h Key" where
  "fire_press k =
     (if pressed k \<and> \<not> press_func_fired k \<and> \<not> key_locked k
      then bind_err (call_handler (press_functions k) PressCall k)
             (\<lambda>k'. Inr (k'\<lparr>press_func_fired := True\<rparr>))
      else Inr k)"

text \<open>Lines 296-300.\<close>

definition fire_release :: "'h Key \<Rightarrow> error + 'h Key" where
  "fire_release k =
     (if \<not> pressed k \<and> last_state k = Some True
      then bind_err (call_handler (release_functions k) ReleaseCall k)
             (\<lambda>k'. Inr (k'\<lparr>last_state := Some False, press_func_fired := False\<rparr>))
      else Inr k)"

text \<open>Lines 302-316; \<open>t\<close> is \<open>update_time\<close>.\<close>

definition track_hold :: "real \<Rightarrow> 'h Key \<Rightarrow> 'h Key" where
  "track_hold t k =
     (if \<not> pressed k then k\<lparr>time_held_for := 0, last_state := Some False\<rparr>
      else if last_state k \<noteq> Some True
        then k\<lparr>time_of_last_press := t, last_state := Some True\<rparr>
      else k\<lparr>time_held_for := t - time_of_last_press k, last_state := Some True\<rparr>)"

text \<open>Lines 321-328.\<close>

definition fire_hold :: "'h Key \<Rightarrow> error + 'h Key" where
  "fire_hold k =
     (if time_held_for k > hold_time k
      then (let k1 = k\<lparr>held := True\<rparr>
            in if \<not> hold_func_fired k1
               then bind_err (call_handler (hold_functions k1) HoldCall k1)
                      (\<lambda>k'. Inr (k'\<lparr>hold_func_fired := True\<rparr>))
               else Inr k1)
      else Inr (k\<lparr>held := False, hold_func_fired := False\<rparr>))"

text \<open>
  \<open>Key.update\<close> reads the clock twice: \<open>now\<close> at line 275 and \<open>update_time\<close> at line
  285. It takes the key's state from its own attribute \<open>current_state\<close>.
\<close>

definition Key_update :: "real \<Rightarrow> real \<Rightarrow> 'h Key \<Rightarrow> error + 'h Key" where
  "Key_update now update_time k0 =
     (let k1 = k0\<lparr>time_since_last_press := Some (now - time_of_last_press k0)\<rparr>;
          k2 = k1\<lparr>key_locked := (now - time_of_last_press k0 < debounce k1)\<rparr>;
          k3 = k2\<lparr>key_state := current_state k2\<rparr>;
          k4 = k3\<lparr>pressed := key_state k3\<rparr>
      in bind_err (fire_press k4)
           (\<lambda>k5. bind_err (fire_release k5)
              (\<lambda>k6. fire_hold (track_hold update_time k6))))"

text \<open>
  Registration (lines 165-233): \<open>on_press\<close>, \<open>on_release\<close> and \<open>on_hold\<close> with a handler
  store it under the mode label of the key's table.
\<close>

definition on_press :: "string \<Rightarrow> 'h \<Rightarrow> 'h Key \<Rightarrow> 'h Key" where
  "on_press mode h k = k\<lparr>press_functions := (press_functions k)(mode \<mapsto> Some h)\<rparr>"

definition on_release :: "string \<Rightarrow> 'h \<Rightarrow> 'h Key \<Rightarrow> 'h Key" where
  "on_release mode h k = k\<lparr>release_functions := (release_functions k)(mode \<mapsto> Some h)\<rparr>"

definition on_hold :: "string \<Rightarrow> 'h \<Rightarrow> 'h Key \<Rightarrow> 'h Key" where
  "on_hold mode h k = k\<lparr>hold_functions := (hold_functions k)(mode \<mapsto> Some h)\<rparr>"

subsection \<open>The keypad (lines 49-163)\<close>

text \<open>A loop \<open>for _key in self.keys: f(_key)\<close> over the keys and the shared strip.\<close>

fun for_keys ::
  "(colour list \<times> 'h Key \<Rightarrow> error + colour list \<times> 'h Key) \<Rightarrow> colour list \<Rightarrow> 'h Key list
     \<Rightarrow> error + colour list \<times> 'h Key list" where
  "for_keys f px [] = Inr (px, [])"
| "for_keys f px (k # ks) =
     bind_err (f (px, k))
       (\<lambda>(px', k'). bind_err (for_keys f px' ks) (\<lambda>(px'', ks'). Inr (px'', k' # ks')))"

text \<open>\<open>self.keys[number].set_led(r, g, b)\<close>, with Python's negative indices.\<close>

definition RGBKeyPad_set_led ::
  "int \<Rightarrow> int \<Rightarrow> int \<Rightarrow> int \<Rightarrow> 'h RGBKeyPad \<Rightarrow> error + 'h RGBKeyPad" where
  "RGBKeyPad_set_led n r g b kp =
     (let len = int (length (keys kp)); j = (if n < 0 then len + n else n)
      in if 0 \<le> j \<and> j < len
         then bind_err (Key_set_led r g b (pixels kp, keys kp ! nat j))
                (\<lambda>(px, k). Inr (kp\<lparr>pixels := px, keys := (keys kp)[nat j := k]\<rparr>))
         else Inl IndexError)"

definition RGBKeyPad_set_all ::
  "int \<Rightarrow> int \<Rightarrow> int \<Rightarrow> 'h RGBKeyPad \<Rightarrow> error + 'h RGBKeyPad" where
  "RGBKeyPad_set_all r g b kp =
     bind_err
       (if \<not> sleeping kp then for_keys (Key_set_led r g b) (pixels kp) (keys kp)
        else for_keys Key_led_off (pixels kp) (keys kp))
       (\<lambda>(px, ks). Inr (kp\<lparr>pixels := px, keys := ks\<rparr>))"

definition RGBKeyPad_clear_all :: "'h RGBKeyPad \<Rightarrow> error + 'h RGBKeyPad" where
  "RGBKeyPad_clear_all kp =
     bind_err (for_keys Key_led_off (pixels kp) (keys kp))
       (\<lambda>(px, ks). Inr (kp\<lparr>pixels := px, keys := ks\<rparr>))"

definition get_states :: "'h RGBKeyPad \<Rightarrow> bool list" where
  "get_states kp = map key_state (keys kp)"

definition get_pressed :: "'h RGBKeyPad \<Rightarrow> nat list" where
  "get_pressed kp = map number (filter key_state (keys kp))"

definition any_pressed :: "'h RGBKeyPad \<Rightarrow> bool" where
  "any_pressed kp = list_ex (\<lambda>s. s) (get_states kp)"

definition none_pressed :: "'h RGBKeyPad \<Rightarrow> bool" where
  "none_pressed kp = (\<not> list_ex (\<lambda>s. s) (get_states kp))"

text \<open>
  Lines 118-121: \<open>for k in range(NUM_KEYS): self.keys[k].set_led(*self.last_led_states[k])\<close>.
\<close>

fun restore_leds :: "nat list \<Rightarrow> 'h RGBKeyPad \<Rightarrow> error + 'h RGBKeyPad" where
  "restore_leds [] kp = Inr kp"
| "restore_leds (i # js) kp =
     (if i < length (keys kp)
      then (case last_led_states kp of
              None \<Rightarrow> Inl TypeError
            | Some snap \<Rightarrow>
                if i < length snap
                then (case snap ! i of (r, g, b) \<Rightarrow>
                        bind_err (Key_set_led r g b (pixels kp, keys kp ! i))
                          (\<lambda>(px, k). restore_leds js (kp\<lparr>pixels := px, keys := (keys kp)[i := k]\<rparr>)))
                else Inl IndexError)
      else Inl IndexError)"

text \<open>
  \<open>sleep_handler\<close> (lines 99-121) reads the clock at line 102 (\<open>t1\<close>, only when a key is
  pressed) and at line 105 (\<open>t2\<close>).
\<close>

definition sleep_handler :: "real \<Rightarrow> real \<Rightarrow> 'h RGBKeyPad \<Rightarrow> error + 'h RGBKeyPad" where
  "sleep_handler t1 t2 kp =
     (let kp1 = (if any_pressed kp then kp\<lparr>kp_time_of_last_press := t1, sleeping := False\<rparr>
                 else kp);
          kp2 = kp1\<lparr>kp_time_since_last_press := Some (t2 - kp_time_of_last_press kp1)\<rparr>
      in bind_err
           (if led_sleep_enabled kp2 \<and> \<not> sleeping kp2
               \<and> t2 - kp_time_of_last_press kp1 > led_sleep_time kp2
            then bind_err
                   (RGBKeyPad_set_all 0 0 0
                      (kp2\<lparr>sleeping := True,
                           last_led_states :=
                             Some (map (\<lambda>k. if lit k then rgb k else (0, 0, 0)) (keys kp2))\<rparr>))
                   (\<lambda>kp3. Inr (kp3\<lparr>was_asleep := True\<rparr>))
            else Inr kp2)
           (\<lambda>kp4. if \<not> sleeping kp4 \<and> was_asleep kp4
                   then bind_err (restore_leds [0..<NUM_KEYS] kp4)
                          (\<lambda>kp5. Inr (kp5\<lparr>was_asleep := False\<rparr>))
                   else Inr kp4))"

text \<open>
  Lines 81-90. The two bytes read from the device are inputs; bit \<open>i\<close> of the mask is 0
  when key \<open>i\<close> is pressed, and \<open>self.states[i]\<close> is assigned 1 then.
\<close>

fun read_states :: "int \<Rightarrow> nat list \<Rightarrow> nat list \<Rightarrow> error + nat list" where
  "read_states all_states [] st = Inr st"
| "read_states all_states (i # js) st =
     (if i < length st
      then read_states all_states js
             (st[i := (if push_bit i 1 AND all_states = 0 then 1 else 0)])
      else Inl IndexError)"

text \<open>Lines 92-93; \<open>clk i\<close> is the pair of clock readings of the \<open>i\<close>-th key's update.\<close>

fun update_keys :: "(nat \<Rightarrow> real \<times> real) \<Rightarrow> nat \<Rightarrow> 'h Key list \<Rightarrow> error + 'h Key list" where
  "update_keys clk i [] = Inr []"
| "update_keys clk i (k # ks) =
     bind_err (Key_update (fst (clk i)) (snd (clk i)) k)
       (\<lambda>k'. bind_err (update_keys clk (Suc i) ks) (\<lambda>ks'. Inr (k' # ks')))"

definition RGBKeyPad_update ::
  "8 word \<Rightarrow> 8 word \<Rightarrow> (nat \<Rightarrow> real \<times> real) \<Rightarrow> real \<Rightarrow> real \<Rightarrow> 'h RGBKeyPad
     \<Rightarrow> error + 'h RGBKeyPad" where
  "RGBKeyPad_update b0 b1 clk t1 t2 kp =
     bind_err (read_states (uint b0 OR push_bit 8 (uint b1)) [0..<16] (states kp))
       (\<lambda>st. bind_err (update_keys clk 0 (keys kp))
          (\<lambda>ks. let kp' = kp\<lparr>states := st, keys := ks\<rparr>
                 in if ENABLE_SLEEP then sleep_handler t1 t2 kp' else Inr kp'))"

text \<open>
  The constructor (lines 51-74): the strip starts dark, \<open>states\<close> is \<open>[0] * 16\<close>, and key
  \<open>i\<close> is built as \<open>Key(i, self.pixels, self.states[i])\<close>: it receives the integer that
  is in the list at that moment, not a reference to the list. \<open>t0\<close> and \<open>tk i\<close> are the
  clock readings of the keypad's and of the \<open>i\<close>-th key's constructor.
\<close>

fun init_keys ::
  "(nat \<Rightarrow> real) \<Rightarrow> nat list \<Rightarrow> colour list \<Rightarrow> nat list \<Rightarrow> error + colour list \<times> 'h Key list" where
  "init_keys tk st px [] = Inr (px, [])"
| "init_keys tk st px (i # js) =
     (if i < length st
      then bind_err (Key_init i px (st ! i \<noteq> 0) (tk i))
             (\<lambda>(px', k). bind_err (init_keys tk st px' js) (\<lambda>(px'', ks). Inr (px'', k # ks)))
      else Inl IndexError)"

definition RGBKeyPad_init :: "real \<Rightarrow> (nat \<Rightarrow> real) \<Rightarrow> error + 'h RGBKeyPad" where
  "RGBKeyPad_init t0 tk =
     bind_err (init_keys tk (replicate 16 0) (replicate 16 (0, 0, 0)) [0..<NUM_KEYS])
       (\<lambda>(px, ks). Inr
          \<lparr>pixels = px, states = replicate 16 0, kp_time_of_last_press = t0,
           kp_time_since_last_press = None, last_led_states = None,
           led_sleep_enabled = True, led_sleep_time = 1, sleeping = False,
           was_asleep = False, keys = ks\<rparr>)"

subsection \<open>Cycles of one key\<close>

text \<open>
  A cycle of a key is a reading \<open>st\<close> held by its attribute \<open>current_state\<close> and one call
  of \<open>update\<close> with the clock readings \<open>now\<close> and \<open>t\<close>. An exception ends the run.
\<close>

fun run_key :: "(bool \<times> real \<times> real) list \<Rightarrow> 'h Key \<Rightarrow> error + 'h Key" where
  "run_key [] k = Inr k"
| "run_key (c # cs) k =
     bind_err (Key_update (fst (snd c)) (snd (snd c)) (k\<lparr>current_state := fst c\<rparr>)) (run_key cs)"

fun is_press :: "'h event \<Rightarrow> bool" where
  "is_press (PressCall h) = True"
| "is_press e = False"

fun is_release :: "'h event \<Rightarrow> bool" where
  "is_release (ReleaseCall h) = True"
| "is_release e = False"

fun is_hold :: "'h event \<Rightarrow> bool" where
  "is_hold (HoldCall h) = True"
| "is_hold e = False"

definition presses :: "'h Key \<Rightarrow> nat" where
  "presses k = length (filter is_press (calls k))"

definition releases :: "'h Key \<Rightarrow> nat" where
  "releases k = length (filter is_release (calls k))"

definition holds :: "'h Key \<Rightarrow> nat" where
  "holds k = length (filter is_hold (calls k))"

section \<open>Vocabulary of the properties\<close>

subsection \<open>LEDs\<close>

text \<open>What \<open>set_led\<close> does to the key itself, apart from the write to the strip.\<close>

definition set_led_key :: "colour \<Rightarrow> 'h Key \<Rightarrow> 'h Key" where
  "set_led_key c k = (if c = (0, 0, 0) then k\<lparr>lit := False\<rparr> else k\<lparr>lit := True, rgb := c\<rparr>)"

text \<open>The invariant of a key's LED: a lit key remembers a colour that is not black.\<close>

definition led_inv :: "'h Key \<Rightarrow> bool" where
  "led_inv k = (lit k \<longrightarrow> rgb k \<noteq> (0, 0, 0))"

definition keeps_led_inv :: "error + colour list \<times> 'h Key \<Rightarrow> bool" where
  "keeps_led_inv res = (case res of Inl e \<Rightarrow> False | Inr (px, k) \<Rightarrow> led_inv k)"

text \<open>
  The LED states a key can reach: it is built, every LED method of the key may be called,
  and anything else (its \<open>update\<close>, registrations, the other keys writing their own
  pixels) leaves its number, colour and flag alone and the strip's length as it is.
\<close>

inductive led_reachable :: "colour list \<times> 'h Key \<Rightarrow> bool" where
  built: "Key_init n px st t = Inr s \<Longrightarrow> led_reachable s"
| set_led: "led_reachable s \<Longrightarrow> Key_set_led r g b s = Inr s' \<Longrightarrow> led_reachable s'"
| led_on: "led_reachable s \<Longrightarrow> Key_led_on s = Inr s' \<Longrightarrow> led_reachable s'"
| led_off: "led_reachable s \<Longrightarrow> Key_led_off s = Inr s' \<Longrightarrow> led_reachable s'"
| led_state: "led_reachable s \<Longrightarrow> Key_led_state v s = Inr s' \<Longrightarrow> led_reachable s'"
| toggle_led: "led_reachable s \<Longrightarrow> Key_toggle_led arg s = Inr s' \<Longrightarrow> led_reachable s'"
| other: "led_reachable (px, k) \<Longrightarrow> length px' = length px \<Longrightarrow> number k' = number k
            \<Longrightarrow> rgb k' = rgb k \<Longrightarrow> lit k' = lit k \<Longrightarrow> led_reachable (px', k')"

subsection \<open>The keypad\<close>

text \<open>
  What the constructor establishes and no method changes: sixteen pixels, and sixteen
  keys numbered by their position.
\<close>

definition wf_kp :: "'h RGBKeyPad \<Rightarrow> bool" where
  "wf_kp kp = (map number (keys kp) = [0..<NUM_KEYS] \<and> length (pixels kp) = NUM_KEYS)"

text \<open>The colour a key shows: the entry \<open>sleep_handler\<close> saves for it at line 113.\<close>

definition shown_colour :: "'h Key \<Rightarrow> colour" where
  "shown_colour k = (if lit k then rgb k else (0, 0, 0))"

text \<open>When \<open>was_asleep\<close> is set, a snapshot of sixteen colours has been saved.\<close>

definition snapshot_ok :: "'h RGBKeyPad \<Rightarrow> bool" where
  "snapshot_ok kp = (\<not> was_asleep kp \<or> map_option length (last_led_states kp) = Some NUM_KEYS)"

subsection \<open>Handlers and episodes\<close>

text \<open>All three handlers are registered for the key's mode, so no dispatch raises.\<close>

definition registered :: "'h Key \<Rightarrow> bool" where
  "registered k =
     (press_functions k (board_state k) \<noteq> None \<and> press_functions k (board_state k) \<noteq> Some None
      \<and> release_functions k (board_state k) \<noteq> None \<and> release_functions k (board_state k) \<noteq> Some None
      \<and> hold_functions k (board_state k) \<noteq> None \<and> hold_functions k (board_state k) \<noteq> Some None)"

definition same_config :: "'h Key \<Rightarrow> 'h Key \<Rightarrow> bool" where
  "same_config k k' =
     (board_state k' = board_state k \<and> press_functions k' = press_functions k
      \<and> release_functions k' = release_functions k \<and> hold_functions k' = hold_functions k
      \<and> debounce k' = debounce k \<and> hold_time k' = hold_time k)"

text \<open>
  Between episodes (whenever \<open>last_state\<close> is not \<open>True\<close>) the held time is zero and the
  press guard is clear. The constructor establishes this and \<open>update\<close> keeps it.
\<close>

definition key_inv :: "'h Key \<Rightarrow> bool" where
  "key_inv k = (last_state k = Some True \<or> (time_held_for k = 0 \<and> \<not> press_func_fired k))"

subsection \<open>Concrete keys and keypads\<close>

text \<open>
  \<open>fresh_key n\<close> is key \<open>n\<close> as the constructor leaves it at time 0; \<open>blue_key n\<close> is
  the same key lit blue; \<open>ready_key\<close> has the handlers 1, 2 and 3 registered under
  \<open>'default'\<close>; \<open>bounced_key\<close> is \<open>ready_key\<close> after a press at time 1 and its release at 1.01.
\<close>

definition fresh_key :: "nat \<Rightarrow> nat Key" where
  "fresh_key n =
     \<lparr>number = n, current_state = False, board_state = ''default'', key_state = False,
      pressed = False, last_state = None, time_of_last_press = 0,
      time_since_last_press = None, time_held_for = 0, held = False,
      hold_time = 0.75, rgb = (0, 0, 0), lit = False,
      press_functions = [''default'' \<mapsto> None], release_functions = [''default'' \<mapsto> None],
      hold_functions = [''default'' \<mapsto> None], press_func_fired = False,
      hold_func_fired = False, debounce = 0.125, key_locked = False, calls = []\<rparr>"

definition blue_key :: "nat \<Rightarrow> nat Key" where
  "blue_key n = (fresh_key n)\<lparr>lit := True, rgb := (0, 0, 255)\<rparr>"

definition ready_key :: "nat Key" where
  "ready_key =
     on_hold ''default'' 3 (on_release ''default'' 2 (on_press ''default'' 1 (fresh_key 0)))"

definition bounced_key :: "nat Key" where
  "bounced_key =
     ready_key\<lparr>time_since_last_press := Some (1 / 100), key_locked := True,
               last_state := Some False, time_of_last_press := 1,
               calls := [PressCall 1, ReleaseCall 2]\<rparr>"

text \<open>
  \<open>demo_kp\<close> is a new keypad after \<open>set_all(0, 0, 255)\<close>. \<open>asleep_kp\<close> is that keypad
  after \<open>sleep_handler\<close> has put it to sleep at time 5; \<open>pressed_kp\<close> is the sleeping keypad at a cycle where key 5 reports pressed.
\<close>

definition demo_kp :: "nat RGBKeyPad" where
  "demo_kp =
     \<lparr>pixels = replicate 16 (0, 0, 255), states = replicate 16 0, kp_time_of_last_press = 0,
      kp_time_since_last_press = None, last_led_states = None, led_sleep_enabled = True,
      led_sleep_time = 1, sleeping = False, was_asleep = False,
      keys = map blue_key [0..<16]\<rparr>"

definition asleep_kp :: "nat RGBKeyPad" where
  "asleep_kp =
     demo_kp\<lparr>kp_time_since_last_press := Some 5,
             pixels := replicate 16 (0, 0, 0), sleeping := True, was_asleep := True,
             last_led_states := Some (replicate 16 (0, 0, 255)),
             keys := map (\<lambda>n. (fresh_key n)\<lparr>rgb := (0, 0, 255)\<rparr>) [0..<16]\<rparr>"

definition pressed_kp :: "nat RGBKeyPad" where
  "pressed_kp =
     asleep_kp\<lparr>keys := map (\<lambda>n. (fresh_key n)\<lparr>rgb := (0, 0, 255), key_state := (n = 5)\<rparr>)
                          [0..<16]\<rparr>"

section \<open>Properties\<close>

subsection \<open>Evaluation lemmas\<close>

lemma bind_err_Inr [simp]: "bind_err (Inr x) f = f x"
  by (simp add: bind_err_def)

lemma bind_err_Inl [simp]: "bind_err (Inl e) f = Inl e"
  by (simp add: bind_err_def)

lemma rep16: "replicate 16 x = [x, x, x, x, x, x, x, x, x, x, x, x, x, x, x, x]"
  by (simp add: eval_nat_numeral)

lemma upt16: "[0..<16] = [0, 1, 2, 3, 4, 5, 6, 7, 8, 9, 10, 11, 12, 13, 14, 15]"
  by (simp add: upt_rec)

lemmas fixture_defs =
  ready_key_def bounced_key_def fresh_key_def blue_key_def on_press_def on_release_def
  on_hold_def

subsection \<open>The mask and the keys' states\<close>

text \<open>
  C1. After a cycle of \<open>RGBKeyPad.update\<close> each key's \<open>key_state\<close> should be the state
  derived from its bit of the mask just read. The code does not do this: the mask is
  decoded into \<open>self.states\<close>, but a key reads its own \<open>current_state\<close>, the integer 0
  it was given by the constructor. On a new keypad the bytes 0xFE, 0xFF (bit 0 clear:
  key 0 pressed) leave \<open>states[0] = 1\<close> and every \<open>key_state\<close> false.
\<close>

theorem update_ignores_mask:
  "map_sum id (\<lambda>kp. (states kp, get_states kp))
     (bind_err (RGBKeyPad_init 0 (\<lambda>i. 0)) (RGBKeyPad_update 0xFE 0xFF (\<lambda>i. (1, 1)) 1 1))
   = Inr ([1, 0, 0, 0, 0, 0, 0, 0, 0, 0, 0, 0, 0, 0, 0, 0], replicate 16 False)"
  by code_simp

text \<open>
  It is so for every mask and every clock: on a new keypad one \<open>update\<close> returns and
  no key reports pressed.
\<close>

lemma new_keypad_never_pressed:
  "map_sum id get_states
     (bind_err (RGBKeyPad_init t0 tk) (RGBKeyPad_update b0 b1 clk t1 t2))
   = Inr (replicate 16 False)"
  by (simp add: RGBKeyPad_init_def RGBKeyPad_update_def RGBKeyPad_set_all_def NUM_KEYS_def
      ENABLE_SLEEP_def upt16 rep16 Key_init_def Key_update_def Key_led_off_def Key_set_led_def
      fire_press_def fire_release_def fire_hold_def track_hold_def sleep_handler_def
      any_pressed_def get_states_def Let_def)

subsection \<open>A missing handler\<close>

text \<open>
  C2. A cycle with no handler registered for the key's mode should do nothing for that
  handler and raise nothing. The code raises: a key as built (\<open>{'default': None}\<close>) that
  reads pressed after the debounce time calls \<open>None\<close> (TypeError), and under a mode
  with no entry the lookup fails (KeyError). With only a press handler registered the
  release raises, and with press and release handlers registered a hold raises.
\<close>

theorem update_without_handler_raises:
  "bind_err (Key_init 0 (replicate 16 (0, 0, 0)) True 0) (\<lambda>(px, k). Key_update 1 1 k)
     = Inl TypeError
   \<and> bind_err (Key_init 0 (replicate 16 (0, 0, 0)) True 0)
       (\<lambda>(px, k). Key_update 1 1 (k\<lparr>board_state := ''menu''\<rparr>))
     = Inl KeyError
   \<and> map_sum id calls
       (run_key [(True, 1, 1), (False, 2, 2)] (on_press ''default'' 1 (fresh_key 0)))
     = Inl TypeError
   \<and> map_sum id calls
       (run_key [(True, 1, 1), (True, 2, 2)]
          (on_release ''default'' 2 (on_press ''default'' 1 (fresh_key 0))))
     = Inl TypeError"
  by (simp add: Key_init_def Key_update_def Key_led_off_def Key_set_led_def Let_def
      fire_press_def fire_release_def track_hold_def fire_hold_def call_handler_def
      fixture_defs)

subsection \<open>The LED of a key\<close>

lemma Key_set_led_eq:
  "Key_set_led r g b (px, k) =
     (if number k < length px then Inr (px[number k := (r, g, b)], set_led_key (r, g, b) k)
      else Inl IndexError)"
  by (simp add: Key_set_led_def set_led_key_def Let_def)

lemma set_led_key_simps [simp]:
  "number (set_led_key c k) = number k"
  "lit (set_led_key c k) = (c \<noteq> (0, 0, 0))"
  "rgb (set_led_key c k) = (if c = (0, 0, 0) then rgb k else c)"
  "key_state (set_led_key c k) = key_state k"
  "current_state (set_led_key c k) = current_state k"
  by (simp_all add: set_led_key_def)

lemma led_inv_set_led_key: "led_inv (set_led_key c k)"
  by (simp add: led_inv_def)

lemma Key_led_off_eq:
  "Key_led_off (px, k) =
     (if number k < length px then Inr (px[number k := (0, 0, 0)], set_led_key (0, 0, 0) k)
      else Inl IndexError)"
  by (simp add: Key_led_off_def Key_set_led_eq)

lemma Key_led_on_eq:
  "Key_led_on (px, k) =
     (if number k < length px then Inr (px[number k := rgb k], set_led_key (rgb k) k)
      else Inl IndexError)"
  by (cases "rgb k") (simp add: Key_led_on_def Key_set_led_eq)

lemma Key_led_state_eq:
  "Key_led_state v (px, k) =
     (if v = 0 then Key_led_off (px, k) else if v = 1 then Key_led_on (px, k) else Inr (px, k))"
  by (simp add: Key_led_state_def)

lemma Key_toggle_led_None_eq:
  "Key_toggle_led None (px, k) =
     (if number k < length px
      then (if lit k then Inr (px[number k := (0, 0, 0)], set_led_key (0, 0, 0) k)
            else Inr (px[number k := rgb k], set_led_key (rgb k) k))
      else Inl IndexError)"
  by (simp add: Key_toggle_led_def Key_led_on_eq Key_led_off_eq)

lemma Key_toggle_led_Some_eq:
  "Key_toggle_led (Some c) (px, k) =
     (if number k < length px
      then (if lit k then Inr (px[number k := (0, 0, 0)], set_led_key (0, 0, 0) (k\<lparr>rgb := c\<rparr>))
            else Inr (px[number k := c], set_led_key c (k\<lparr>rgb := c\<rparr>)))
      else Inl IndexError)"
  by (simp add: Key_toggle_led_def Key_led_on_eq Key_led_off_eq)

lemma toggle_twice:
  assumes "led_inv k" "number k < length px"
  shows "bind_err (Key_toggle_led None (px, k)) (Key_toggle_led None)
           = Inr (px[number k := (if lit k then rgb k else (0, 0, 0))], k)"
  using assms
  by (auto simp add: Key_toggle_led_None_eq bind_err_def led_inv_def set_led_key_def)

text \<open>Every reachable LED state satisfies the invariant, and the key's pixel exists.\<close>

lemma led_reachable_inv:
  "led_reachable s \<Longrightarrow> led_inv (snd s) \<and> number (snd s) < length (fst s)"
proof (induction rule: led_reachable.induct)
  case (built n px st t s)
  then show ?case
    by (auto simp add: Key_init_def Key_led_off_eq bind_err_def led_inv_def set_led_key_def
        split: if_splits)
next
  case (set_led s r g b s')
  then show ?case
    by (cases s rule: prod.exhaust)
      (auto simp add: Key_set_led_eq led_inv_set_led_key split: if_splits)
next
  case (led_on s s')
  then show ?case
    by (cases s rule: prod.exhaust)
      (auto simp add: Key_led_on_eq led_inv_set_led_key split: if_splits)
next
  case (led_off s s')
  then show ?case
    by (cases s rule: prod.exhaust)
      (auto simp add: Key_led_off_eq led_inv_set_led_key split: if_splits)
next
  case (led_state s v s')
  then show ?case
    by (cases s rule: prod.exhaust)
      (auto simp add: Key_led_state_eq Key_led_on_eq Key_led_off_eq led_inv_set_led_key
        split: if_splits)
next
  case (toggle_led s arg s')
  then show ?case
    by (cases s rule: prod.exhaust; cases arg)
      (auto simp add: Key_toggle_led_None_eq Key_toggle_led_Some_eq led_inv_set_led_key
        split: if_splits)
next
  case (other px k px' k')
  then show ?case by (simp add: led_inv_def)
qed

text \<open>
  C9. For a key in any reachable LED state, \<open>toggle_led()\<close> called twice with no colour
  returns the key to its remembered colour and its \<open>lit\<close> flag: the key is the same
  object state as before, and its pixel shows the colour the flag and memory stand for.
\<close>

theorem toggle_led_twice:
  assumes "led_reachable (px, k)"
  shows "bind_err (Key_toggle_led None (px, k)) (Key_toggle_led None)
           = Inr (px[number k := (if lit k then rgb k else (0, 0, 0))], k)"
  using led_reachable_inv [OF assms] by (simp add: toggle_twice)

theorem toggle_led_twice_witness:
  "bind_err (Key_toggle_led None ((replicate 16 (0, 0, 0))[3 := (0, 0, 255)], blue_key 3))
     (Key_toggle_led None)
   = Inr ((replicate 16 (0, 0, 0))[3 := (0, 0, 255)], blue_key 3)"
proof -
  have a: "Key_init 3 (replicate 16 (0, 0, 0)) False 0 = Inr (replicate 16 (0, 0, 0), fresh_key 3)"
    by (simp add: Key_init_def Key_led_off_eq set_led_key_def fresh_key_def rep16)
  have b: "Key_set_led 0 0 255 (replicate 16 (0, 0, 0), fresh_key 3)
             = Inr ((replicate 16 (0, 0, 0))[3 := (0, 0, 255)], blue_key 3)"
    by (simp add: Key_set_led_eq set_led_key_def blue_key_def fresh_key_def)
  have r: "led_reachable ((replicate 16 (0, 0, 0))[3 := (0, 0, 255)], blue_key 3)"
    by (rule led_reachable.set_led [OF led_reachable.built [OF a] b])
  show ?thesis
    using toggle_led_twice [OF r] by (simp add: blue_key_def fresh_key_def)
qed

subsection \<open>Loops over the keys\<close>

lemma for_keys_set_led:
  assumes "map number ks = [m..<n]" "n \<le> length px" "m \<le> n"
  shows "for_keys (Key_set_led r g b) px ks
           = Inr (take m px @ replicate (n - m) (r, g, b) @ drop n px,
                  map (set_led_key (r, g, b)) ks)"
  using assms
proof (induction ks arbitrary: m px)
  case Nil
  from Nil.prems(1) have "[m..<n] = []" by simp
  then have "n \<le> m" by auto
  with Nil.prems(3) have "m = n" by simp
  then show ?case by simp
next
  case (Cons k ks)
  from Cons.prems(1) have mn: "m < n" by (cases "m < n") auto
  then have sm: "Suc m \<le> n" by simp
  with Cons.prems(1) have hd: "number k = m" and tl: "map number ks = [Suc m..<n]"
    by (simp_all add: upt_conv_Cons)
  have len: "n \<le> length (px[m := (r, g, b)])" using Cons.prems(2) by simp
  have step: "Key_set_led r g b (px, k) = Inr (px[m := (r, g, b)], set_led_key (r, g, b) k)"
    using mn Cons.prems(2) hd by (simp add: Key_set_led_eq)
  have pix: "take (Suc m) (px[m := (r, g, b)]) @ replicate (n - Suc m) (r, g, b)
               @ drop n (px[m := (r, g, b)])
             = take m px @ replicate (n - m) (r, g, b) @ drop n px"
  proof -
    have a: "take (Suc m) (px[m := (r, g, b)]) = take m px @ [(r, g, b)]"
      using mn Cons.prems(2) by (simp add: take_Suc_conv_app_nth)
    have b: "drop n (px[m := (r, g, b)]) = drop n px" using mn by simp
    have c: "replicate (n - m) (r, g, b) = (r, g, b) # replicate (n - Suc m) (r, g, b)"
      using mn by (cases "n - m") simp_all
    show ?thesis by (simp add: a b c)
  qed
  show ?case
    by (simp add: step Cons.IH [OF tl len sm] pix)
qed

lemma for_keys_led_off:
  assumes "map number ks = [m..<n]" "n \<le> length px" "m \<le> n"
  shows "for_keys Key_led_off px ks
           = Inr (take m px @ replicate (n - m) (0, 0, 0) @ drop n px,
                  map (set_led_key (0, 0, 0)) ks)"
proof -
  have "(Key_led_off :: colour list \<times> 'a Key \<Rightarrow> _) = Key_set_led 0 0 0"
    by (rule ext) (simp add: Key_led_off_def)
  then show ?thesis using for_keys_set_led [OF assms, of 0 0 0] by simp
qed

lemma wf_kp_length_keys: "wf_kp kp \<Longrightarrow> length (keys kp) = NUM_KEYS"
  by (metis wf_kp_def length_map length_upt minus_nat.diff_0)

lemma wf_kp_upd [simp]:
  "wf_kp (kp\<lparr>kp_time_of_last_press := a\<rparr>) = wf_kp kp"
  "wf_kp (kp\<lparr>kp_time_since_last_press := b\<rparr>) = wf_kp kp"
  "wf_kp (kp\<lparr>sleeping := c\<rparr>) = wf_kp kp"
  "wf_kp (kp\<lparr>was_asleep := d\<rparr>) = wf_kp kp"
  "wf_kp (kp\<lparr>last_led_states := e\<rparr>) = wf_kp kp"
  by (simp_all add: wf_kp_def)

text \<open>\<open>set_all\<close> on a well-formed keypad: one colour everywhere, black when asleep.\<close>

lemma set_all_eq:
  assumes "wf_kp kp"
  shows "RGBKeyPad_set_all r g b kp
           = Inr (kp\<lparr>pixels := replicate NUM_KEYS (if sleeping kp then (0, 0, 0) else (r, g, b)),
                    keys := map (set_led_key (if sleeping kp then (0, 0, 0) else (r, g, b)))
                              (keys kp)\<rparr>)"
proof -
  from assms have n: "map number (keys kp) = [0..<NUM_KEYS]"
    and l: "NUM_KEYS \<le> length (pixels kp)" and l': "length (pixels kp) = NUM_KEYS"
    by (simp_all add: wf_kp_def)
  show ?thesis
    by (simp add: RGBKeyPad_set_all_def for_keys_set_led [OF n l] for_keys_led_off [OF n l] l')
qed

lemma set_led_at:
  assumes "wf_kp kp" "n < NUM_KEYS"
  shows "RGBKeyPad_set_led (int n) r g b kp
           = Inr (kp\<lparr>pixels := (pixels kp)[n := (r, g, b)],
                    keys := (keys kp)[n := set_led_key (r, g, b) (keys kp ! n)]\<rparr>)"
proof -
  have lk: "length (keys kp) = NUM_KEYS" by (rule wf_kp_length_keys [OF assms(1)])
  have "number (keys kp ! n) = map number (keys kp) ! n" using lk assms(2) by simp
  also have "\<dots> = n" using assms by (simp add: wf_kp_def)
  finally have nn: "number (keys kp ! n) = n" .
  have lp: "length (pixels kp) = NUM_KEYS" using assms(1) by (simp add: wf_kp_def)
  show ?thesis
    using lk lp assms(2) nn by (simp add: RGBKeyPad_set_led_def Let_def Key_set_led_eq)
qed

text \<open>The restoring loop, by induction on the number of indices still to visit.\<close>

lemma restore_leds_upt:
  assumes "last_led_states kp = Some snap" "n \<le> length snap" "n \<le> length (pixels kp)"
    "n \<le> length (keys kp)" "\<forall>i. m \<le> i \<and> i < n \<longrightarrow> number (keys kp ! i) = i"
  shows "\<exists>px ks. restore_leds [m..<n] kp = Inr (kp\<lparr>pixels := px, keys := ks\<rparr>)
           \<and> length px = length (pixels kp) \<and> length ks = length (keys kp)
           \<and> (\<forall>j<length px. px ! j = (if m \<le> j \<and> j < n then snap ! j else pixels kp ! j))
           \<and> (\<forall>j<length ks. ks ! j = (if m \<le> j \<and> j < n then set_led_key (snap ! j) (keys kp ! j)
                                       else keys kp ! j))"
  using assms
proof (induction "n - m" arbitrary: m kp)
  case 0
  then have "[m..<n] = []" by simp
  then show ?case
    by (intro exI [of _ "pixels kp"] exI [of _ "keys kp"]) (use 0 in auto)
next
  case (Suc d)
  then have mn: "m < n" and d: "d = n - Suc m" by simp_all
  let ?c = "snap ! m"
  let ?kp1 = "kp\<lparr>pixels := (pixels kp)[m := ?c],
                   keys := (keys kp)[m := set_led_key ?c (keys kp ! m)]\<rparr>"
  have num: "number (keys kp ! m) = m" using Suc.prems(5) mn by simp
  have unfold: "restore_leds [m..<n] kp = restore_leds [Suc m..<n] ?kp1"
    using mn Suc.prems(1-4) num
    by (cases ?c) (simp add: upt_conv_Cons Key_set_led_eq)
  have p1: "last_led_states ?kp1 = Some snap" using Suc.prems(1) by simp
  have p3: "n \<le> length (pixels ?kp1)" using Suc.prems(3) by simp
  have p4: "n \<le> length (keys ?kp1)" using Suc.prems(4) by simp
  have p5: "\<forall>i. Suc m \<le> i \<and> i < n \<longrightarrow> number (keys ?kp1 ! i) = i"
    using Suc.prems(5) by (simp add: nth_list_update)
  from Suc.hyps(1) [OF d p1 Suc.prems(2) p3 p4 p5]
  obtain px ks where r: "restore_leds [Suc m..<n] ?kp1 = Inr (?kp1\<lparr>pixels := px, keys := ks\<rparr>)"
    and lp: "length px = length (pixels ?kp1)" and lk: "length ks = length (keys ?kp1)"
    and np: "\<forall>j<length px. px ! j = (if Suc m \<le> j \<and> j < n then snap ! j else pixels ?kp1 ! j)"
    and nk: "\<forall>j<length ks. ks ! j = (if Suc m \<le> j \<and> j < n
                                       then set_led_key (snap ! j) (keys ?kp1 ! j)
                                       else keys ?kp1 ! j)"
    by blast
  have e: "?kp1\<lparr>pixels := px, keys := ks\<rparr> = kp\<lparr>pixels := px, keys := ks\<rparr>" by simp
  show ?case
  proof (intro exI [of _ px] exI [of _ ks] conjI allI impI)
    show "restore_leds [m..<n] kp = Inr (kp\<lparr>pixels := px, keys := ks\<rparr>)"
      using unfold r e by simp
    show "length px = length (pixels kp)" using lp by simp
    show "length ks = length (keys kp)" using lk by simp
  next
    fix j assume "j < length px"
    then show "px ! j = (if m \<le> j \<and> j < n then snap ! j else pixels kp ! j)"
      using np lp mn Suc.prems(3) by (cases "j = m") (auto simp add: nth_list_update)
  next
    fix j assume "j < length ks"
    then show "ks ! j = (if m \<le> j \<and> j < n then set_led_key (snap ! j) (keys kp ! j)
                         else keys kp ! j)"
      using nk lk mn Suc.prems(4) by (cases "j = m") (auto simp add: nth_list_update)
  qed
qed

lemma restore_leds_all:
  assumes "wf_kp kp" "last_led_states kp = Some snap" "length snap = NUM_KEYS"
  shows "restore_leds [0..<NUM_KEYS] kp
           = Inr (kp\<lparr>pixels := snap, keys := map2 set_led_key snap (keys kp)\<rparr>)"
proof -
  from assms(1) have n: "map number (keys kp) = [0..<NUM_KEYS]"
    and lp: "length (pixels kp) = NUM_KEYS"
    by (simp_all add: wf_kp_def)
  have lk: "length (keys kp) = NUM_KEYS" by (rule wf_kp_length_keys [OF assms(1)])
  have nn: "\<forall>i. 0 \<le> i \<and> i < NUM_KEYS \<longrightarrow> number (keys kp ! i) = i"
  proof (intro allI impI)
    fix i assume i: "0 \<le> i \<and> i < NUM_KEYS"
    then have "i < length (keys kp)" using lk by simp
    then have "number (keys kp ! i) = map number (keys kp) ! i" by simp
    then show "number (keys kp ! i) = i" using n i by simp
  qed
  from restore_leds_upt [OF assms(2), of NUM_KEYS 0] assms(3) lp lk nn
  obtain px ks where r: "restore_leds [0..<NUM_KEYS] kp = Inr (kp\<lparr>pixels := px, keys := ks\<rparr>)"
    and lpx: "length px = NUM_KEYS" and lks: "length ks = NUM_KEYS"
    and np: "\<forall>j<length px. px ! j = (if 0 \<le> j \<and> j < NUM_KEYS then snap ! j else pixels kp ! j)"
    and nk: "\<forall>j<length ks. ks ! j = (if 0 \<le> j \<and> j < NUM_KEYS
                                       then set_led_key (snap ! j) (keys kp ! j)
                                       else keys kp ! j)"
    by auto
  have "px = snap" using lpx assms(3) np by (intro nth_equalityI) auto
  moreover have "ks = map2 set_led_key snap (keys kp)"
    using lks assms(3) lk nk by (intro nth_equalityI) auto
  ultimately show ?thesis using r by simp
qed

lemma map_number_set_led: "map (number \<circ> set_led_key c) ks = map number ks"
  by (induction ks) simp_all

lemma map_number_restore:
  "length snap = length ks
     \<Longrightarrow> map (number \<circ> (\<lambda>(x, y). set_led_key x y)) (zip snap ks) = map number ks"
  by (induction snap ks rule: list_induct2) simp_all

lemma wf_kp_dark:
  "wf_kp kp
     \<Longrightarrow> wf_kp (kp\<lparr>pixels := replicate NUM_KEYS c, keys := map (set_led_key c') (keys kp)\<rparr>)"
  by (simp add: wf_kp_def map_number_set_led)

lemma wf_kp_restored:
  "wf_kp kp \<Longrightarrow> length snap = NUM_KEYS
     \<Longrightarrow> wf_kp (kp\<lparr>pixels := snap, keys := map2 set_led_key snap (keys kp)\<rparr>)"
  using wf_kp_length_keys [of kp] by (simp add: wf_kp_def map_number_restore)

subsection \<open>The sleep coordinator\<close>

lemma sleep_enter:
  assumes "wf_kp kp" "led_sleep_enabled kp" "\<not> sleeping kp" "\<not> any_pressed kp"
    "led_sleep_time kp < t2 - kp_time_of_last_press kp"
  shows "sleep_handler t1 t2 kp
           = Inr (kp\<lparr>kp_time_since_last_press := Some (t2 - kp_time_of_last_press kp),
                    sleeping := True,
                    last_led_states := Some (map shown_colour (keys kp)),
                    pixels := replicate NUM_KEYS (0, 0, 0),
                    keys := map (set_led_key (0, 0, 0)) (keys kp),
                    was_asleep := True\<rparr>)"
proof -
  have sc: "(\<lambda>k::'a Key. if lit k then rgb k else (0, 0, 0)) = shown_colour"
    by (rule ext) (simp add: shown_colour_def)
  show ?thesis using assms
    by (simp add: sleep_handler_def Let_def set_all_eq sc)
qed

lemma sleep_wake:
  assumes "wf_kp kp" "any_pressed kp" "was_asleep kp" "last_led_states kp = Some snap"
    "length snap = NUM_KEYS" "t2 - t1 \<le> led_sleep_time kp"
  shows "sleep_handler t1 t2 kp
           = Inr (kp\<lparr>kp_time_of_last_press := t1, sleeping := False,
                    kp_time_since_last_press := Some (t2 - t1),
                    pixels := snap, keys := map2 set_led_key snap (keys kp),
                    was_asleep := False\<rparr>)"
  using assms
  by (simp add: sleep_handler_def Let_def restore_leds_all)

text \<open>A cycle without a press leaves a sleeping keypad asleep, snapshot and LEDs untouched.\<close>

lemma sleep_stays:
  assumes "sleeping kp" "\<not> any_pressed kp"
  shows "sleep_handler t1 t2 kp
           = Inr (kp\<lparr>kp_time_since_last_press := Some (t2 - kp_time_of_last_press kp)\<rparr>)"
  using assms by (simp add: sleep_handler_def Let_def)

text \<open>
  On a well-formed keypad \<open>sleep_handler\<close> raises nothing, and it leaves the keys alone,
  or turns every one off, or sets every one from a snapshot.
\<close>

lemma sleep_handler_total:
  assumes "wf_kp kp" "snapshot_ok kp"
  shows "\<exists>kp'. sleep_handler t1 t2 kp = Inr kp' \<and> wf_kp kp' \<and> snapshot_ok kp'
           \<and> (keys kp' = keys kp \<or> keys kp' = map (set_led_key (0, 0, 0)) (keys kp)
                \<or> (\<exists>snap. length snap = NUM_KEYS \<and> keys kp' = map2 set_led_key snap (keys kp)))"
proof -
  define kp1 where
    "kp1 = (if any_pressed kp then kp\<lparr>kp_time_of_last_press := t1, sleeping := False\<rparr> else kp)"
  define kp2 where
    "kp2 = kp1\<lparr>kp_time_since_last_press := Some (t2 - kp_time_of_last_press kp1)\<rparr>"
  have sh: "sleep_handler t1 t2 kp =
     bind_err
       (if led_sleep_enabled kp2 \<and> \<not> sleeping kp2
           \<and> t2 - kp_time_of_last_press kp1 > led_sleep_time kp2
        then bind_err
               (RGBKeyPad_set_all 0 0 0
                  (kp2\<lparr>sleeping := True,
                       last_led_states :=
                         Some (map (\<lambda>k. if lit k then rgb k else (0, 0, 0)) (keys kp2))\<rparr>))
               (\<lambda>kp3. Inr (kp3\<lparr>was_asleep := True\<rparr>))
        else Inr kp2)
       (\<lambda>kp4. if \<not> sleeping kp4 \<and> was_asleep kp4
               then bind_err (restore_leds [0..<NUM_KEYS] kp4)
                      (\<lambda>kp5. Inr (kp5\<lparr>was_asleep := False\<rparr>))
               else Inr kp4)"
    by (simp only: sleep_handler_def Let_def kp2_def kp1_def)
  have wf2: "wf_kp kp2" using assms(1) by (simp add: kp2_def kp1_def)
  have k2: "keys kp2 = keys kp" by (simp add: kp2_def kp1_def)
  have w2: "was_asleep kp2 = was_asleep kp" by (simp add: kp2_def kp1_def)
  have l2: "last_led_states kp2 = last_led_states kp" by (simp add: kp2_def kp1_def)
  have so2: "snapshot_ok kp2" using assms(2) by (simp add: snapshot_ok_def w2 l2)
  show ?thesis
  proof (cases "led_sleep_enabled kp2 \<and> \<not> sleeping kp2
                  \<and> t2 - kp_time_of_last_press kp1 > led_sleep_time kp2")
    case True
    define kp3 where
      "kp3 = kp2\<lparr>sleeping := True,
                 last_led_states :=
                   Some (map (\<lambda>k. if lit k then rgb k else (0, 0, 0)) (keys kp2))\<rparr>"
    have wf3: "wf_kp kp3" using wf2 by (simp add: kp3_def)
    have s3: "sleeping kp3" by (simp add: kp3_def)
    have r: "sleep_handler t1 t2 kp
               = Inr (kp3\<lparr>pixels := replicate NUM_KEYS (0, 0, 0),
                           keys := map (set_led_key (0, 0, 0)) (keys kp3),
                           was_asleep := True\<rparr>)"
      unfolding sh if_P [OF True] using s3
      by (simp add: kp3_def [symmetric] set_all_eq [OF wf3])
    have k3: "keys kp3 = keys kp" by (simp add: kp3_def k2)
    have l3: "last_led_states kp3
                = Some (map (\<lambda>k. if lit k then rgb k else (0, 0, 0)) (keys kp))"
      by (simp add: kp3_def k2)
    show ?thesis
      unfolding r
      using wf_kp_dark [OF wf3, of "(0, 0, 0)" "(0, 0, 0)"] wf_kp_length_keys [OF assms(1)]
      by (simp add: snapshot_ok_def k3 l3)
  next
    case False
    show ?thesis
    proof (cases "\<not> sleeping kp2 \<and> was_asleep kp2")
      case True
      with so2 obtain snap where s: "last_led_states kp2 = Some snap" "length snap = NUM_KEYS"
        by (auto simp add: snapshot_ok_def)
      have r: "sleep_handler t1 t2 kp
                 = Inr (kp2\<lparr>pixels := snap, keys := map2 set_led_key snap (keys kp2),
                             was_asleep := False\<rparr>)"
        unfolding sh if_not_P [OF False] bind_err_Inr if_P [OF True]
        by (simp add: restore_leds_all [OF wf2 s])
      show ?thesis
        unfolding r using wf_kp_restored [OF wf2 s(2)] s(2)
        by (auto simp add: snapshot_ok_def k2)
    next
      case F2: False
      have r: "sleep_handler t1 t2 kp = Inr kp2"
        unfolding sh if_not_P [OF False] bind_err_Inr if_not_P [OF F2] by (rule refl)
      show ?thesis
        unfolding r using wf2 so2 by (auto simp add: k2)
    qed
  qed
qed

lemma demo_kp_built:
  "bind_err (RGBKeyPad_init 0 (\<lambda>i. 0)) (RGBKeyPad_set_all 0 0 255) = Inr demo_kp"
  by (simp add: RGBKeyPad_init_def RGBKeyPad_set_all_def NUM_KEYS_def upt16 rep16 Key_init_def
      Key_led_off_def Key_set_led_def demo_kp_def blue_key_def fresh_key_def)

lemma asleep_kp_reached: "sleep_handler 5 5 demo_kp = Inr asleep_kp"
  by (simp add: sleep_handler_def RGBKeyPad_set_all_def NUM_KEYS_def upt16 rep16 Let_def
      any_pressed_def get_states_def Key_led_off_def Key_set_led_def demo_kp_def asleep_kp_def
      blue_key_def fresh_key_def)

lemma wf_demo_kp: "wf_kp demo_kp"
  by (simp add: wf_kp_def demo_kp_def NUM_KEYS_def blue_key_def fresh_key_def o_def)

lemma wf_asleep_kp: "wf_kp asleep_kp"
  by (simp add: wf_kp_def asleep_kp_def demo_kp_def NUM_KEYS_def fresh_key_def o_def)

lemma wf_pressed_kp: "wf_kp pressed_kp"
  by (simp add: wf_kp_def pressed_kp_def asleep_kp_def demo_kp_def NUM_KEYS_def fresh_key_def
      o_def)

text \<open>
  C3, as the claim states it: while the keypad sleeps, every \<open>set_led\<close> and \<open>set_all\<close>
  request leaves the LEDs dark. It fails for \<open>set_led\<close>: a new keypad that has gone to
  sleep (no press for more than its timeout of 1) still lights pixel 3 red on
  \<open>set_led(3, 255, 0, 0)\<close>, and stays asleep.
\<close>

theorem set_led_lights_while_sleeping:
  "map_sum id (\<lambda>kp. (sleeping kp, pixels kp ! 3))
     (bind_err (bind_err (RGBKeyPad_init 0 (\<lambda>i. 0)) (sleep_handler 2 2))
        (RGBKeyPad_set_led 3 255 0 0))
   = Inr (True, (255, 0, 0))"
  by code_simp

text \<open>
  C3, amended: while the keypad sleeps, \<open>set_all\<close> is redirected to off, whatever the
  colour asked for: afterwards all sixteen pixels are black, no key is lit, and the
  keypad still sleeps. \<open>set_led\<close> has no such gate: asleep as awake it writes the colour
  to the key's pixel and lights the key when the colour is not black.
\<close>

theorem set_all_gated_set_led_not:
  assumes "wf_kp kp" "sleeping kp" "n < NUM_KEYS"
  shows "(\<exists>kp'. RGBKeyPad_set_all r g b kp = Inr kp' \<and> sleeping kp'
            \<and> pixels kp' = replicate NUM_KEYS (0, 0, 0) \<and> list_all (\<lambda>k. \<not> lit k) (keys kp'))
       \<and> (\<exists>kp'. RGBKeyPad_set_led (int n) r g b kp = Inr kp' \<and> sleeping kp'
            \<and> pixels kp' = (pixels kp)[n := (r, g, b)]
            \<and> lit (keys kp' ! n) = ((r, g, b) \<noteq> (0, 0, 0)))"
proof
  show "\<exists>kp'. RGBKeyPad_set_all r g b kp = Inr kp' \<and> sleeping kp'
            \<and> pixels kp' = replicate NUM_KEYS (0, 0, 0) \<and> list_all (\<lambda>k. \<not> lit k) (keys kp')"
    using assms(2) by (simp add: set_all_eq [OF assms(1)] list_all_iff)
next
  have "n < length (keys kp)" using wf_kp_length_keys [OF assms(1)] assms(3) by simp
  then show "\<exists>kp'. RGBKeyPad_set_led (int n) r g b kp = Inr kp' \<and> sleeping kp'
            \<and> pixels kp' = (pixels kp)[n := (r, g, b)]
            \<and> lit (keys kp' ! n) = ((r, g, b) \<noteq> (0, 0, 0))"
    using assms(2) by (simp add: set_led_at [OF assms(1,3)])
qed

theorem set_all_gated_set_led_not_witness:
  "(\<exists>kp'. RGBKeyPad_set_all 255 0 0 asleep_kp = Inr kp' \<and> sleeping kp'
      \<and> pixels kp' = replicate 16 (0, 0, 0) \<and> list_all (\<lambda>k. \<not> lit k) (keys kp'))
   \<and> (\<exists>kp'. RGBKeyPad_set_led 3 255 0 0 asleep_kp = Inr kp' \<and> sleeping kp'
      \<and> pixels kp' ! 3 = (255, 0, 0) \<and> lit (keys kp' ! 3))"
proof -
  have h2: "sleeping asleep_kp" by (simp add: asleep_kp_def)
  have h3: "(3::nat) < NUM_KEYS" by (simp add: NUM_KEYS_def)
  have px: "pixels asleep_kp = replicate 16 (0, 0, 0)" by (simp add: asleep_kp_def)
  show ?thesis
    using set_all_gated_set_led_not [OF wf_asleep_kp h2 h3, of 255 0 0]
    by (auto simp add: NUM_KEYS_def px)
qed

text \<open>
  C4. With sleep enabled and timeout \<open>T = led_sleep_time\<close>: when \<open>sleep_handler\<close> runs
  on an awake keypad with no key pressed and more than \<open>T\<close> since the last press, it
  blacks all sixteen pixels and saves the snapshot of the colours shown (black for a key
  that is off). \<open>set_all\<close> called while asleep changes neither the snapshot nor the
  dark pixels, and neither does a cycle without a press (\<open>sleep_stays\<close>). At a later
  cycle \<open>kp3\<close>, with the snapshot in place and a key reporting pressed, the wake test
  comes first and every pixel is set to its snapshot entry. The two clock readings of the waking call, \<open>t3\<close> (line 102) and \<open>t4\<close>
  (line 105), are taken to be no further apart than the timeout, as they are whenever
  the timeout is not negative and both readings return the same tick.
\<close>

theorem sleep_then_wake:
  assumes "wf_kp kp" "led_sleep_enabled kp" "\<not> sleeping kp" "\<not> any_pressed kp"
    "led_sleep_time kp < t2 - kp_time_of_last_press kp"
    and "wf_kp kp3" "any_pressed kp3" "was_asleep kp3"
    "last_led_states kp3 = Some (map shown_colour (keys kp))"
    "t4 - t3 \<le> led_sleep_time kp3"
  shows "\<exists>kp1 kp2 kp4.
           sleep_handler t1 t2 kp = Inr kp1 \<and> sleeping kp1 \<and> was_asleep kp1
           \<and> pixels kp1 = replicate NUM_KEYS (0, 0, 0)
           \<and> last_led_states kp1 = Some (map shown_colour (keys kp))
           \<and> RGBKeyPad_set_all r g b kp1 = Inr kp2 \<and> sleeping kp2 \<and> was_asleep kp2
           \<and> pixels kp2 = replicate NUM_KEYS (0, 0, 0)
           \<and> last_led_states kp2 = Some (map shown_colour (keys kp))
           \<and> sleep_handler t3 t4 kp3 = Inr kp4 \<and> \<not> sleeping kp4
           \<and> pixels kp4 = map shown_colour (keys kp)"
proof -
  let ?kp1 = "kp\<lparr>kp_time_since_last_press := Some (t2 - kp_time_of_last_press kp),
                    sleeping := True,
                    last_led_states := Some (map shown_colour (keys kp)),
                    pixels := replicate NUM_KEYS (0, 0, 0),
                    keys := map (set_led_key (0, 0, 0)) (keys kp),
                    was_asleep := True\<rparr>"
  have e: "sleep_handler t1 t2 kp = Inr ?kp1" by (rule sleep_enter [OF assms(1-5)])
  have wf1: "wf_kp ?kp1"
    using wf_kp_dark [OF assms(1), of "(0, 0, 0)" "(0, 0, 0)"] by (simp add: wf_kp_def)
  have ln: "length (map shown_colour (keys kp)) = NUM_KEYS"
    using wf_kp_length_keys [OF assms(1)] by simp
  note a = set_all_eq [OF wf1, of r g b]
  note w = sleep_wake [OF assms(6-9) ln assms(10)]
  show ?thesis
    apply (rule exI [of _ ?kp1])
    apply (subst a)
    apply (subst w)
    apply (subst e)
    apply simp
    done
qed

theorem sleep_then_wake_witness:
  "\<exists>kp1 kp2 kp4.
     sleep_handler 5 5 demo_kp = Inr kp1 \<and> sleeping kp1 \<and> was_asleep kp1
     \<and> pixels kp1 = replicate 16 (0, 0, 0)
     \<and> last_led_states kp1 = Some (replicate 16 (0, 0, 255))
     \<and> RGBKeyPad_set_all 9 9 9 kp1 = Inr kp2 \<and> sleeping kp2 \<and> was_asleep kp2
     \<and> pixels kp2 = replicate 16 (0, 0, 0)
     \<and> last_led_states kp2 = Some (replicate 16 (0, 0, 255))
     \<and> sleep_handler 6 6 pressed_kp = Inr kp4 \<and> \<not> sleeping kp4
     \<and> pixels kp4 = replicate 16 (0, 0, 255)"
proof -
  have sc: "map shown_colour (keys demo_kp) = replicate 16 (0, 0, 255)"
    by (simp add: demo_kp_def shown_colour_def blue_key_def fresh_key_def upt16 rep16)
  have h2: "led_sleep_enabled demo_kp" "\<not> sleeping demo_kp" "\<not> any_pressed demo_kp"
    "led_sleep_time demo_kp < 5 - kp_time_of_last_press demo_kp"
    by (simp_all add: demo_kp_def any_pressed_def get_states_def blue_key_def fresh_key_def
        list_ex_iff)
  have h4: "any_pressed pressed_kp"
    by (simp add: pressed_kp_def asleep_kp_def demo_kp_def any_pressed_def get_states_def
        fresh_key_def upt16)
  have h5: "was_asleep pressed_kp"
    "last_led_states pressed_kp = Some (map shown_colour (keys demo_kp))"
    "6 - 6 \<le> led_sleep_time pressed_kp"
    by (simp_all add: sc) (simp_all add: pressed_kp_def asleep_kp_def demo_kp_def)
  show ?thesis
    using sleep_then_wake [OF wf_demo_kp h2 wf_pressed_kp h4 h5,
        where ?t1.0 = 5 and r = 9 and g = 9 and b = 9]
    by (simp add: sc NUM_KEYS_def)
qed

text \<open>
  C10. Every LED operation keeps the invariant that a lit key remembers a colour that
  is not black: \<open>set_led\<close>, \<open>led_on\<close>, \<open>led_off\<close>, \<open>led_state\<close> and \<open>toggle_led()\<close> on a
  key, and the sleep coordinator on all the keys of the keypad. \<open>set_led(0, 0, 0)\<close>
  clears \<open>lit\<close> and changes nothing else of the key, so the remembered colour stays.
\<close>

theorem led_invariant_kept:
  assumes "led_inv k" "number k < length px"
    and "wf_kp kp" "snapshot_ok kp" "list_all led_inv (keys kp)"
  shows "keeps_led_inv (Key_set_led r g b (px, k))
       \<and> keeps_led_inv (Key_led_on (px, k))
       \<and> keeps_led_inv (Key_led_off (px, k))
       \<and> keeps_led_inv (Key_led_state v (px, k))
       \<and> keeps_led_inv (Key_toggle_led None (px, k))
       \<and> Key_set_led 0 0 0 (px, k) = Inr (px[number k := (0, 0, 0)], k\<lparr>lit := False\<rparr>)
       \<and> (\<exists>kp'. sleep_handler t1 t2 kp = Inr kp' \<and> list_all led_inv (keys kp'))"
proof -
  have key_ops: "keeps_led_inv (Key_set_led r g b (px, k))"
    "keeps_led_inv (Key_led_on (px, k))" "keeps_led_inv (Key_led_off (px, k))"
    "keeps_led_inv (Key_toggle_led None (px, k))"
    using assms(2)
    by (simp_all add: keeps_led_inv_def Key_set_led_eq Key_led_on_eq Key_led_off_eq
        Key_toggle_led_None_eq led_inv_set_led_key)
  have st: "keeps_led_inv (Key_led_state v (px, k))"
    using assms(1,2)
    by (simp add: keeps_led_inv_def Key_led_state_eq Key_led_on_eq Key_led_off_eq
        led_inv_set_led_key)
  have blk: "Key_set_led 0 0 0 (px, k) = Inr (px[number k := (0, 0, 0)], k\<lparr>lit := False\<rparr>)"
    using assms(2) by (simp add: Key_set_led_eq set_led_key_def)
  from sleep_handler_total [OF assms(3,4), of t1 t2]
  obtain kp' where r: "sleep_handler t1 t2 kp = Inr kp'"
    and ks: "keys kp' = keys kp \<or> keys kp' = map (set_led_key (0, 0, 0)) (keys kp)
                \<or> (\<exists>snap. length snap = NUM_KEYS \<and> keys kp' = map2 set_led_key snap (keys kp))"
    by blast
  have "list_all led_inv (keys kp')"
    using ks assms(5) by (auto simp add: list_all_iff led_inv_set_led_key)
  with r key_ops st blk show ?thesis by simp
qed

theorem led_invariant_kept_witness:
  "keeps_led_inv (Key_set_led 1 2 3 (replicate 16 (0, 0, 0), blue_key 3))
   \<and> keeps_led_inv (Key_led_on (replicate 16 (0, 0, 0), blue_key 3))
   \<and> keeps_led_inv (Key_led_off (replicate 16 (0, 0, 0), blue_key 3))
   \<and> keeps_led_inv (Key_led_state 1 (replicate 16 (0, 0, 0), blue_key 3))
   \<and> keeps_led_inv (Key_toggle_led None (replicate 16 (0, 0, 0), blue_key 3))
   \<and> Key_set_led 0 0 0 (replicate 16 (0, 0, 0), blue_key 3)
       = Inr (replicate 16 (0, 0, 0), (blue_key 3)\<lparr>lit := False\<rparr>)
   \<and> (\<exists>kp'. sleep_handler 5 5 demo_kp = Inr kp' \<and> list_all led_inv (keys kp'))"
proof -
  have h1: "led_inv (blue_key 3)" by (simp add: led_inv_def blue_key_def)
  have h2: "number (blue_key 3) < length (replicate 16 (0, 0, 0) :: colour list)"
    by (simp add: blue_key_def fresh_key_def)
  have h4: "snapshot_ok demo_kp" by (simp add: snapshot_ok_def demo_kp_def)
  have h5: "list_all led_inv (keys demo_kp)"
    by (simp add: demo_kp_def list_all_iff led_inv_def blue_key_def)
  have e: "(replicate 16 (0, 0, 0) :: colour list)[number (blue_key 3) := (0, 0, 0)]
             = replicate 16 (0, 0, 0)"
    by (simp add: blue_key_def fresh_key_def rep16)
  show ?thesis
    using led_invariant_kept [OF h1 h2 wf_demo_kp h4 h5, of 1 2 3 1 5 5] by (simp add: e)
qed

subsection \<open>One cycle of a key\<close>

lemma registeredE:
  assumes "registered k"
  obtains hp hr hh where "press_functions k (board_state k) = Some (Some hp)"
    "release_functions k (board_state k) = Some (Some hr)"
    "hold_functions k (board_state k) = Some (Some hh)"
  using assms unfolding registered_def by (metis option.exhaust)

lemma registered_same_config: "same_config k k' \<Longrightarrow> registered k' = registered k"
  by (simp add: same_config_def registered_def)

lemma same_config_trans: "same_config k k1 \<Longrightarrow> same_config k1 k2 \<Longrightarrow> same_config k k2"
  by (simp add: same_config_def)

text \<open>A cycle in which the key reads pressed.\<close>

lemma step_pressed:
  assumes "registered k" "current_state k"
  shows "\<exists>k'. Key_update now t k = Inr k' \<and> same_config k k' \<and> last_state k' = Some True
     \<and> key_state k' \<and> number k' = number k
     \<and> time_of_last_press k' = (if last_state k = Some True then time_of_last_press k else t)
     \<and> time_held_for k'
          = (if last_state k = Some True then t - time_of_last_press k else time_held_for k)
     \<and> press_func_fired k' = (press_func_fired k \<or> debounce k \<le> now - time_of_last_press k)
     \<and> presses k' = presses k
          + (if \<not> press_func_fired k \<and> debounce k \<le> now - time_of_last_press k then 1 else 0)
     \<and> releases k' = releases k
     \<and> hold_func_fired k' = (hold_time k < time_held_for k')
     \<and> held k' = (hold_time k < time_held_for k')
     \<and> holds k' = holds k
          + (if hold_time k < time_held_for k' \<and> \<not> hold_func_fired k then 1 else 0)"
proof -
  from assms(1) obtain hp hr hh where h: "press_functions k (board_state k) = Some (Some hp)"
    "release_functions k (board_state k) = Some (Some hr)"
    "hold_functions k (board_state k) = Some (Some hh)"
    by (rule registeredE)
  show ?thesis
    using assms(2) h
    by (simp add: Key_update_def Let_def fire_press_def fire_release_def track_hold_def
        fire_hold_def call_handler_def same_config_def presses_def releases_def holds_def
        not_less)
qed

text \<open>A cycle in which the key reads not pressed.\<close>

lemma step_released:
  assumes "registered k" "\<not> current_state k"
  shows "\<exists>k'. Key_update now t k = Inr k' \<and> same_config k k' \<and> last_state k' = Some False
     \<and> \<not> key_state k' \<and> number k' = number k
     \<and> time_of_last_press k' = time_of_last_press k
     \<and> time_held_for k' = 0
     \<and> press_func_fired k' = (last_state k \<noteq> Some True \<and> press_func_fired k)
     \<and> presses k' = presses k
     \<and> releases k' = releases k + (if last_state k = Some True then 1 else 0)
     \<and> hold_func_fired k' = (hold_time k < 0)
     \<and> held k' = (hold_time k < 0)
     \<and> holds k' = holds k + (if hold_time k < 0 \<and> \<not> hold_func_fired k then 1 else 0)"
proof -
  from assms(1) obtain hp hr hh where h: "press_functions k (board_state k) = Some (Some hp)"
    "release_functions k (board_state k) = Some (Some hr)"
    "hold_functions k (board_state k) = Some (Some hh)"
    by (rule registeredE)
  show ?thesis
    using assms(2) h
    by (simp add: Key_update_def Let_def fire_press_def fire_release_def track_hold_def
        fire_hold_def call_handler_def same_config_def presses_def releases_def holds_def)
qed

lemma cycle_pressed:
  assumes "registered k"
  shows "\<exists>k'. run_key [(True, now, t)] k = Inr k' \<and> same_config k k' \<and> last_state k' = Some True
     \<and> key_state k' \<and> number k' = number k
     \<and> time_of_last_press k' = (if last_state k = Some True then time_of_last_press k else t)
     \<and> time_held_for k'
          = (if last_state k = Some True then t - time_of_last_press k else time_held_for k)
     \<and> press_func_fired k' = (press_func_fired k \<or> debounce k \<le> now - time_of_last_press k)
     \<and> presses k' = presses k
          + (if \<not> press_func_fired k \<and> debounce k \<le> now - time_of_last_press k then 1 else 0)
     \<and> releases k' = releases k
     \<and> hold_func_fired k' = (hold_time k < time_held_for k')
     \<and> held k' = (hold_time k < time_held_for k')
     \<and> holds k' = holds k
          + (if hold_time k < time_held_for k' \<and> \<not> hold_func_fired k then 1 else 0)"
proof -
  have r: "registered (k\<lparr>current_state := True\<rparr>)" using assms by (simp add: registered_def)
  have e: "run_key [(True, now, t)] k = Key_update now t (k\<lparr>current_state := True\<rparr>)"
    by (cases "Key_update now t (k\<lparr>current_state := True\<rparr>)") simp_all
  show ?thesis
    unfolding e using step_pressed [OF r, of now t]
    by (simp add: same_config_def presses_def releases_def holds_def
        split del: if_split cong: if_cong)
qed

lemma cycle_released:
  assumes "registered k"
  shows "\<exists>k'. run_key [(False, now, t)] k = Inr k' \<and> same_config k k' \<and> last_state k' = Some False
     \<and> \<not> key_state k' \<and> number k' = number k
     \<and> time_of_last_press k' = time_of_last_press k
     \<and> time_held_for k' = 0
     \<and> press_func_fired k' = (last_state k \<noteq> Some True \<and> press_func_fired k)
     \<and> presses k' = presses k
     \<and> releases k' = releases k + (if last_state k = Some True then 1 else 0)
     \<and> hold_func_fired k' = (hold_time k < 0)
     \<and> held k' = (hold_time k < 0)
     \<and> holds k' = holds k + (if hold_time k < 0 \<and> \<not> hold_func_fired k then 1 else 0)"
proof -
  have r: "registered (k\<lparr>current_state := False\<rparr>)" using assms by (simp add: registered_def)
  have e: "run_key [(False, now, t)] k = Key_update now t (k\<lparr>current_state := False\<rparr>)"
    by (cases "Key_update now t (k\<lparr>current_state := False\<rparr>)") simp_all
  show ?thesis
    unfolding e using step_released [OF r, of now t]
    by (simp add: same_config_def presses_def releases_def holds_def
        split del: if_split cong: if_cong)
qed

lemma run_key_Cons: "run_key (c # cs) k = bind_err (run_key [c] k) (run_key cs)"
  by (cases "Key_update (fst (snd c)) (snd (snd c)) (k\<lparr>current_state := fst c\<rparr>)") simp_all

text \<open>The constructor establishes \<open>key_inv\<close> and every cycle keeps it.\<close>

lemma key_inv_init: "Key_init n px st t = Inr (px', k) \<Longrightarrow> key_inv k"
  by (auto simp add: Key_init_def Key_led_off_eq key_inv_def set_led_key_def split: if_splits)

lemma key_inv_update:
  assumes "registered k" "key_inv k"
  shows "\<exists>k'. Key_update now t k = Inr k' \<and> key_inv k' \<and> registered k'"
proof (cases "current_state k")
  case True
  from step_pressed [OF assms(1) True, of now t] show ?thesis
    using assms(1) by (auto simp add: key_inv_def registered_same_config)
next
  case False
  from step_released [OF assms(1) False, of now t] show ?thesis
    using assms by (auto simp add: key_inv_def registered_same_config)
qed

subsection \<open>The cycles of an episode after its first\<close>

text \<open>
  While the key stays pressed, \<open>time_of_last_press\<close> is the episode's start, and the
  press handler fires at the first cycle whose reading is a debounce time after it.
\<close>

lemma held_run_presses:
  assumes "registered k" "last_state k = Some True" "list_all fst cs"
  shows "\<exists>k'. run_key cs k = Inr k' \<and> same_config k k' \<and> last_state k' = Some True
     \<and> time_of_last_press k' = time_of_last_press k
     \<and> press_func_fired k'
          = (press_func_fired k \<or> (\<exists>c\<in>set cs. debounce k \<le> fst (snd c) - time_of_last_press k))
     \<and> presses k' = presses k
          + (if \<not> press_func_fired k
                \<and> (\<exists>c\<in>set cs. debounce k \<le> fst (snd c) - time_of_last_press k)
             then 1 else 0)
     \<and> releases k' = releases k"
  using assms
proof (induction cs arbitrary: k)
  case Nil
  then show ?case by (simp add: same_config_def)
next
  case (Cons c cs)
  obtain now t where c: "c = (True, now, t)" using Cons.prems(3) by (cases c) auto
  from cycle_pressed [OF Cons.prems(1), of now t] Cons.prems(2)
  obtain k1 where s: "run_key [(True, now, t)] k = Inr k1" "same_config k k1"
    "last_state k1 = Some True" "time_of_last_press k1 = time_of_last_press k"
    "press_func_fired k1 = (press_func_fired k \<or> debounce k \<le> now - time_of_last_press k)"
    "presses k1 = presses k
       + (if \<not> press_func_fired k \<and> debounce k \<le> now - time_of_last_press k then 1 else 0)"
    "releases k1 = releases k"
    by auto
  have r1: "registered k1" using s(2) Cons.prems(1) by (simp add: registered_same_config)
  have l1: "list_all fst cs" using Cons.prems(3) by simp
  from Cons.IH [OF r1 s(3) l1]
  obtain k' where t: "run_key cs k1 = Inr k'" "same_config k1 k'" "last_state k' = Some True"
    "time_of_last_press k' = time_of_last_press k1"
    "press_func_fired k'
       = (press_func_fired k1
          \<or> (\<exists>c\<in>set cs. debounce k1 \<le> fst (snd c) - time_of_last_press k1))"
    "presses k' = presses k1
       + (if \<not> press_func_fired k1
             \<and> (\<exists>c\<in>set cs. debounce k1 \<le> fst (snd c) - time_of_last_press k1)
          then 1 else 0)"
    "releases k' = releases k1"
    by auto
  have d: "debounce k1 = debounce k" using s(2) by (simp add: same_config_def)
  have run: "run_key (c # cs) k = Inr k'"
    by (subst run_key_Cons) (simp only: c s(1) t(1) bind_err_Inr)
  show ?case
  proof (intro exI [of _ k'] conjI)
    show "run_key (c # cs) k = Inr k'" by (rule run)
    show "same_config k k'" by (rule same_config_trans [OF s(2) t(2)])
    show "last_state k' = Some True" by (rule t(3))
    show "time_of_last_press k' = time_of_last_press k" using t(4) s(4) by simp
    show "press_func_fired k'
          = (press_func_fired k
             \<or> (\<exists>c\<in>set (c # cs). debounce k \<le> fst (snd c) - time_of_last_press k))"
      using t(5) s(5) s(4) d by (auto simp add: c)
    show "presses k' = presses k
          + (if \<not> press_func_fired k
                \<and> (\<exists>c\<in>set (c # cs). debounce k \<le> fst (snd c) - time_of_last_press k)
             then 1 else 0)"
      using t(6) s(5,6) s(4) d by (auto simp add: c)
    show "releases k' = releases k" using t(7) s(7) by simp
  qed
qed


lemma bounced_key_reached:
  "run_key [(True, 1, 1), (False, 101 / 100, 101 / 100)] ready_key = Inr bounced_key"
  by (simp add: fixture_defs Key_update_def Let_def fire_press_def fire_release_def
      track_hold_def fire_hold_def call_handler_def)

lemma ready_facts:
  "registered ready_key" "key_inv ready_key" "last_state ready_key \<noteq> Some True"
  "presses ready_key = 0" "releases ready_key = 0" "holds ready_key = 0"
  "debounce ready_key = 1 / 8" "hold_time ready_key = 3 / 4" "time_of_last_press ready_key = 0"
  by (simp_all add: fixture_defs registered_def key_inv_def presses_def releases_def holds_def)

subsection \<open>Press and release\<close>

text \<open>
  C5, as the claim states it: in every episode with a press handler registered the
  handler is called exactly once. It fails for a short episode that starts within the
  debounce time of the previous press: the key is pressed at 1.00 and released at 1.01,
  pressed again at 1.02 and released at 1.03. The second episode calls the release
  handler and never the press handler.
\<close>

theorem press_skipped_in_short_episode:
  "map_sum id calls
     (run_key [(True, 1, 1), (False, 101 / 100, 101 / 100), (True, 102 / 100, 102 / 100),
               (False, 103 / 100, 103 / 100)] ready_key)
   = Inr [PressCall 1, ReleaseCall 2, ReleaseCall 2]"
  by code_simp

text \<open>
  C5, amended. An episode starts at a cycle \<open>(now, t)\<close> that reads pressed after one
  that did not, and goes on through the pressed cycles \<open>cs\<close>. With the handlers
  registered, the press handler is called at most once in the episode: once when some
  cycle of it is not locked (at its first cycle the debounce time has passed since the
  previous press started, or at a later cycle since this episode started), and not at
  all otherwise, however many cycles the key stays pressed. The release handler is
  called exactly once, at the first cycle that reads not pressed, and not again at the
  cycle after.
\<close>

theorem press_and_release_per_episode:
  assumes "registered k" "key_inv k" "last_state k \<noteq> Some True" "list_all fst cs"
  shows "\<exists>k1 k2 k3. run_key ((True, now, t) # cs) k = Inr k1
     \<and> presses k1 = presses k
          + (if debounce k \<le> now - time_of_last_press k
                \<or> (\<exists>c\<in>set cs. debounce k \<le> fst (snd c) - t)
             then 1 else 0)
     \<and> releases k1 = releases k
     \<and> run_key [(False, now2, t2)] k1 = Inr k2 \<and> presses k2 = presses k1
     \<and> releases k2 = releases k + 1
     \<and> run_key [(False, now3, t3)] k2 = Inr k3 \<and> presses k3 = presses k1
     \<and> releases k3 = releases k + 1"
proof -
  have nf: "\<not> press_func_fired k" using assms(2,3) by (simp add: key_inv_def)
  from cycle_pressed [OF assms(1), of now t] assms(3) nf
  obtain ka where a: "run_key [(True, now, t)] k = Inr ka" "same_config k ka"
    "last_state ka = Some True" "time_of_last_press ka = t"
    "press_func_fired ka = (debounce k \<le> now - time_of_last_press k)"
    "presses ka = presses k + (if debounce k \<le> now - time_of_last_press k then 1 else 0)"
    "releases ka = releases k"
    by auto
  have ra: "registered ka" using a(2) assms(1) by (simp add: registered_same_config)
  have da: "debounce ka = debounce k" using a(2) by (simp add: same_config_def)
  from held_run_presses [OF ra a(3) assms(4)]
  obtain k1 where b: "run_key cs ka = Inr k1" "same_config ka k1" "last_state k1 = Some True"
    "presses k1 = presses ka
       + (if \<not> press_func_fired ka
             \<and> (\<exists>c\<in>set cs. debounce ka \<le> fst (snd c) - time_of_last_press ka)
          then 1 else 0)"
    "releases k1 = releases ka"
    by auto
  have r1: "registered k1" using b(2) ra by (simp add: registered_same_config)
  from cycle_released [OF r1, of now2 t2] b(3)
  obtain k2 where c: "run_key [(False, now2, t2)] k1 = Inr k2" "same_config k1 k2"
    "last_state k2 = Some False" "presses k2 = presses k1" "releases k2 = releases k1 + 1"
    by auto
  have r2: "registered k2" using c(2) r1 by (simp add: registered_same_config)
  from cycle_released [OF r2, of now3 t3] c(3)
  obtain k3 where d: "run_key [(False, now3, t3)] k2 = Inr k3" "presses k3 = presses k2"
    "releases k3 = releases k2"
    by auto
  have run: "run_key ((True, now, t) # cs) k = Inr k1"
    by (subst run_key_Cons) (simp only: a(1) b(1) bind_err_Inr)
  have cnt: "presses k1 = presses k
          + (if debounce k \<le> now - time_of_last_press k
                \<or> (\<exists>c\<in>set cs. debounce k \<le> fst (snd c) - t)
             then 1 else 0)"
    using b(4) a(4,5,6) da by auto
  show ?thesis
    using run cnt b(5) a(7) c(1,4,5) d by auto
qed

theorem press_and_release_per_episode_witness:
  "\<exists>k1 k2 k3.
     run_key [(True, 1, 1), (True, 105 / 100, 105 / 100), (True, 12 / 10, 12 / 10)] ready_key
       = Inr k1
     \<and> presses k1 = 1 \<and> releases k1 = 0
     \<and> run_key [(False, 13 / 10, 13 / 10)] k1 = Inr k2 \<and> presses k2 = presses k1
     \<and> releases k2 = 1
     \<and> run_key [(False, 14 / 10, 14 / 10)] k2 = Inr k3 \<and> presses k3 = presses k1
     \<and> releases k3 = 1"
proof -
  have h: "list_all fst [(True, 105 / 100 :: real, 105 / 100 :: real), (True, 12 / 10, 12 / 10)]"
    by simp
  show ?thesis
    using press_and_release_per_episode [OF ready_facts(1-3) h,
        of 1 1 "13 / 10" "13 / 10" "14 / 10" "14 / 10"]
    by (simp add: ready_facts)
qed

subsection \<open>Debounce\<close>

text \<open>
  C6, as the claim states it: two presses less than the debounce time apart make the
  press handler fire at most once. It fails when the second press is held: pressed at
  1.00, released at 1.01, pressed again at 1.02 and still pressed at 1.20, the handler
  is called for the first press and again at 1.20.
\<close>

theorem two_close_presses_fire_twice:
  "map_sum id calls
     (run_key [(True, 1, 1), (False, 101 / 100, 101 / 100), (True, 102 / 100, 102 / 100),
               (True, 12 / 10, 12 / 10)] ready_key)
   = Inr [PressCall 1, ReleaseCall 2, PressCall 1]"
  by code_simp

text \<open>
  C6, amended. In any cycle the press handler is called at most once, and only if the
  key reads pressed and at least the debounce time lies between the cycle's clock
  reading and \<open>time_of_last_press\<close>; \<open>key_state\<close> itself follows the reading without
  debounce. A press that starts less than the debounce time after the previous press
  started calls nothing while less than the debounce time has passed since its own
  start: two such presses fire the handler once when the second is that short.
\<close>

theorem press_needs_debounce_elapsed:
  assumes "registered k"
    and "registered kb" "key_inv kb" "last_state kb \<noteq> Some True" "list_all fst cs"
    "now1 - time_of_last_press kb < debounce kb"
    "list_all (\<lambda>c. fst (snd c) - t1 < debounce kb) cs"
  shows "(\<exists>k'. run_key [(st, now, t)] k = Inr k' \<and> key_state k' = st
            \<and> presses k \<le> presses k' \<and> presses k' \<le> presses k + 1
            \<and> (presses k < presses k' \<longrightarrow> st \<and> debounce k \<le> now - time_of_last_press k))
       \<and> (\<exists>k'. run_key ((True, now1, t1) # cs) kb = Inr k' \<and> presses k' = presses kb)"
proof
  show "\<exists>k'. run_key [(st, now, t)] k = Inr k' \<and> key_state k' = st
            \<and> presses k \<le> presses k' \<and> presses k' \<le> presses k + 1
            \<and> (presses k < presses k' \<longrightarrow> st \<and> debounce k \<le> now - time_of_last_press k)"
  proof (cases st)
    case True
    from cycle_pressed [OF assms(1), of now t] True show ?thesis by auto
  next
    case False
    from cycle_released [OF assms(1), of now t] False show ?thesis by auto
  qed
next
  have nf: "\<not> press_func_fired kb" using assms(3,4) by (simp add: key_inv_def)
  from cycle_pressed [OF assms(2), of now1 t1] assms(4,6) nf
  obtain ka where a: "run_key [(True, now1, t1)] kb = Inr ka" "same_config kb ka"
    "last_state ka = Some True" "time_of_last_press ka = t1"
    "\<not> press_func_fired ka" "presses ka = presses kb"
    by auto
  have ra: "registered ka" using a(2) assms(2) by (simp add: registered_same_config)
  have da: "debounce ka = debounce kb" using a(2) by (simp add: same_config_def)
  from held_run_presses [OF ra a(3) assms(5)]
  obtain k1 where b: "run_key cs ka = Inr k1"
    "presses k1 = presses ka
       + (if \<not> press_func_fired ka
             \<and> (\<exists>c\<in>set cs. debounce ka \<le> fst (snd c) - time_of_last_press ka)
          then 1 else 0)"
    by auto
  have none: "\<not> (\<exists>c\<in>set cs. debounce ka \<le> fst (snd c) - time_of_last_press ka)"
    using assms(7) by (auto simp add: list_all_iff da a(4))
  have run: "run_key ((True, now1, t1) # cs) kb = Inr k1"
    by (subst run_key_Cons) (simp only: a(1) b(1) bind_err_Inr)
  show "\<exists>k'. run_key ((True, now1, t1) # cs) kb = Inr k' \<and> presses k' = presses kb"
    using run b(2) none a(6) by auto
qed

theorem press_needs_debounce_elapsed_witness:
  "(\<exists>k'. run_key [(True, 1, 1)] ready_key = Inr k' \<and> key_state k' \<and> presses k' \<le> 1)
   \<and> (\<exists>k'. run_key [(True, 102 / 100, 102 / 100), (True, 105 / 100, 105 / 100)] bounced_key
             = Inr k'
         \<and> presses k' = 1)"
proof -
  have b: "registered bounced_key" "key_inv bounced_key" "last_state bounced_key \<noteq> Some True"
    "list_all fst [(True, 105 / 100 :: real, 105 / 100 :: real)]"
    "102 / 100 - time_of_last_press bounced_key < debounce bounced_key"
    "list_all (\<lambda>c. fst (snd c) - 102 / 100 < debounce bounced_key)
       [(True, 105 / 100 :: real, 105 / 100 :: real)]"
    by (simp_all add: fixture_defs registered_def key_inv_def)
  have p: "presses bounced_key = 1" by (simp add: fixture_defs presses_def)
  show ?thesis
    using press_needs_debounce_elapsed [OF ready_facts(1) b, of True 1 1]
    by (auto simp add: ready_facts p)
qed

subsection \<open>Hold\<close>



end
